theory Spec2Isabelle
  imports Main
begin

section \<open>Exceptions\<close>

text \<open>
  The exceptions that the modelled code can raise.  \<open>KafkaStreamsError\<close> is the
  repository's own error class (the topology construction error); it carries the
  arguments it was constructed with.  The other three are the Python built-ins raised by a
  failed dictionary lookup, a failed attribute access and a failed variable lookup.
\<close>

datatype error =
    KafkaStreamsError "string list"
  | KeyError string
  | AttributeError string
  | NameError string

fun is_KafkaStreamsError :: "error + 'a \<Rightarrow> bool" where
  "is_KafkaStreamsError (Inl (KafkaStreamsError args)) = True"
| "is_KafkaStreamsError (Inl (KeyError k)) = False"
| "is_KafkaStreamsError (Inl (AttributeError a)) = False"
| "is_KafkaStreamsError (Inl (NameError n)) = False"
| "is_KafkaStreamsError (Inr v) = False"

section \<open>Processor nodes and the object store\<close>

text \<open>
  \<open>topology.py\<close>, class \<open>ProcessorNode\<close>.  The wrapped processor is one of
  \<open>SourceProcessor(topics)\<close>, \<open>SinkProcessor(topic)\<close> or the instance obtained by
  calling the user's processor type; the type \<open>'p\<close> stands for user processor types and
  calling one is taken to succeed.

  \<open>__init__\<close> sets exactly the attributes \<open>name\<close>, \<open>processor\<close> and \<open>children\<close>.
  \<open>Context.get_store\<close> reads a further attribute \<open>stores\<close>; the field \<open>stores\<close> is
  \<open>None\<close> while the object has no such attribute and \<open>Some m\<close> once a dictionary \<open>m\<close>
  has been assigned to it.

  Nodes are Python objects shared by reference: the node dictionary, the children lists
  and the lists of the topology all point to the same objects.  A reference is an index
  into the object store, a list of node objects in allocation order.
\<close>

type_synonym ref = nat

datatype 'p processor_obj =
    SourceProcessor "string list"
  | SinkProcessor string
  | ProcessorInstance 'p

record ('p, 'st) ProcessorNode =
  name :: string
  node_processor :: "'p processor_obj"
  children :: "ref list"
  stores :: "(string \<rightharpoonup> 'st) option"

type_synonym ('p, 'st) heap = "('p, 'st) ProcessorNode list"

type_synonym node_dict = "string \<rightharpoonup> ref"

definition ProcessorNode_init :: "string \<Rightarrow> 'p processor_obj \<Rightarrow> ('p, 'st) ProcessorNode" where
  "ProcessorNode_init nm p =
     \<lparr>name = nm, node_processor = p, children = [], stores = None\<rparr>"

section \<open>The topology and its builder\<close>

record 'st Topology =
  nodes :: node_dict
  sources :: "ref list"
  processors :: "ref list"
  sinks :: "ref list"
  state_stores :: "string \<rightharpoonup> 'st"

text \<open>
  A store factory as \<open>state_store\<close> and \<open>build\<close> use it.  \<open>build\<close> calls it with no
  argument, so it is any callable; \<open>create\<close> is the store instance that the call yields.
  The duplicate-store message of \<open>state_store\<close> reads the attribute \<open>name\<close> of the
  factory: the field \<open>store_name\<close> is \<open>None\<close> for a factory object without such an
  attribute and \<open>Some n\<close> for one whose attribute \<open>name\<close> is \<open>n\<close>.
\<close>

record 'st store_factory =
  store_name :: "string option"
  create :: 'st

text \<open>
  The deferred construction instructions: \<open>functools.partial(build_source, name, topics)\<close>,
  \<open>functools.partial(build_processor, name, processor_type, parents)\<close> and
  \<open>functools.partial(build_sink, name, topic, parents)\<close>.
\<close>

datatype 'p partial =
    Partial_build_source string "string list"
  | Partial_build_processor string 'p "string list"
  | Partial_build_sink string string "string list"

record ('p, 'st) TopologyBuilder =
  topics :: "string list"
  priv_sources :: "'p partial list"
  priv_processors :: "'p partial list"
  priv_sinks :: "'p partial list"
  priv_state_stores :: "string \<rightharpoonup> 'st store_factory"

definition TopologyBuilder_init :: "('p, 'st) TopologyBuilder" where
  "TopologyBuilder_init =
     \<lparr>topics = [], priv_sources = [], priv_processors = [], priv_sinks = [],
      priv_state_stores = Map.empty\<rparr>"

subsection \<open>\<open>_add_node\<close>\<close>

text \<open>\<open>list(nodes[i] for i in inputs)\<close>: the first missing key raises \<open>KeyError\<close>.\<close>

fun lookup_inputs :: "node_dict \<Rightarrow> string list \<Rightarrow> error + ref list" where
  "lookup_inputs nd [] = Inr []"
| "lookup_inputs nd (i # inputs) =
     (case nd i of
        None \<Rightarrow> Inl (KeyError i)
      | Some r \<Rightarrow>
          (case lookup_inputs nd inputs of
             Inl e \<Rightarrow> Inl e
           | Inr rs \<Rightarrow> Inr (r # rs)))"

text \<open>\<open>for i in inputs: nodes[i].children.append(processor)\<close>.\<close>

fun append_children ::
  "('p, 'st) heap \<Rightarrow> node_dict \<Rightarrow> ref \<Rightarrow> string list \<Rightarrow> error + ('p, 'st) heap" where
  "append_children h nd c [] = Inr h"
| "append_children h nd c (i # inputs) =
     (case nd i of
        None \<Rightarrow> Inl (KeyError i)
      | Some p \<Rightarrow>
          append_children (h[p := (h ! p)\<lparr>children := children (h ! p) @ [c]\<rparr>]) nd c inputs)"

text \<open>
  \<open>_add_node(nodes, name, processor, inputs)\<close>, where \<open>processor\<close> is the reference
  to the freshly allocated node.  The message of the third \<open>raise\<close> evaluates
  \<open>n.name for i in node_inputs\<close>, in which \<open>n\<close> is unbound: reaching it would raise
  \<open>NameError\<close>.
\<close>

definition add_node ::
  "('p, 'st) heap \<Rightarrow> node_dict \<Rightarrow> string \<Rightarrow> ref \<Rightarrow> string list
     \<Rightarrow> error + (('p, 'st) heap \<times> node_dict)" where
  "add_node h nd nm processor_ref inputs =
     (if nm \<in> dom nd then
        Inl (KafkaStreamsError
               [''A processor with the name '' @ [CHR 0x27] @ nm @ [CHR 0x27]
                  @ '' already added to this topology''])
      else
        let nd1 = nd(nm \<mapsto> processor_ref) in
        case lookup_inputs nd1 inputs of
          Inl e \<Rightarrow> Inl e
        | Inr node_inputs \<Rightarrow>
            if list_ex (\<lambda>n. name (h ! n) = nm) node_inputs then
              Inl (KafkaStreamsError [''A processor cannot have itself as an input''])
            else if list_ex (\<lambda>n. name (h ! n) \<notin> dom nd1) node_inputs then
              Inl (NameError ''n'')
            else
              (case append_children h nd1 processor_ref inputs of
                 Inl e \<Rightarrow> Inl e
               | Inr h1 \<Rightarrow> Inr (h1, nd1)))"

subsection \<open>The deferred builders\<close>

text \<open>
  Each builder allocates its node first and then calls \<open>_add_node\<close>; it returns the new
  node together with the updated object store and node dictionary.
\<close>

definition build_source ::
  "string \<Rightarrow> string list \<Rightarrow> ('p, 'st) heap \<Rightarrow> node_dict
     \<Rightarrow> error + (ref \<times> ('p, 'st) heap \<times> node_dict)" where
  "build_source nm ts h nd =
     (let source = length h;
          h0 = h @ [ProcessorNode_init nm (SourceProcessor ts)]
      in case add_node h0 nd nm source [] of
           Inl e \<Rightarrow> Inl e
         | Inr (h1, nd1) \<Rightarrow> Inr (source, h1, nd1))"

definition build_processor ::
  "string \<Rightarrow> 'p \<Rightarrow> string list \<Rightarrow> ('p, 'st) heap \<Rightarrow> node_dict
     \<Rightarrow> error + (ref \<times> ('p, 'st) heap \<times> node_dict)" where
  "build_processor nm processor_type parents h nd =
     (let processor_node = length h;
          h0 = h @ [ProcessorNode_init nm (ProcessorInstance processor_type)]
      in case add_node h0 nd nm processor_node parents of
           Inl e \<Rightarrow> Inl e
         | Inr (h1, nd1) \<Rightarrow> Inr (processor_node, h1, nd1))"

definition build_sink ::
  "string \<Rightarrow> string \<Rightarrow> string list \<Rightarrow> ('p, 'st) heap \<Rightarrow> node_dict
     \<Rightarrow> error + (ref \<times> ('p, 'st) heap \<times> node_dict)" where
  "build_sink nm topic parents h nd =
     (let sink_node = length h;
          h0 = h @ [ProcessorNode_init nm (SinkProcessor topic)]
      in case add_node h0 nd nm sink_node parents of
           Inl e \<Rightarrow> Inl e
         | Inr (h1, nd1) \<Rightarrow> Inr (sink_node, h1, nd1))"

fun call_partial ::
  "'p partial \<Rightarrow> ('p, 'st) heap \<Rightarrow> node_dict
     \<Rightarrow> error + (ref \<times> ('p, 'st) heap \<times> node_dict)" where
  "call_partial (Partial_build_source nm ts) h nd = build_source nm ts h nd"
| "call_partial (Partial_build_processor nm pt parents) h nd =
     build_processor nm pt parents h nd"
| "call_partial (Partial_build_sink nm topic parents) h nd =
     build_sink nm topic parents h nd"

text \<open>The list comprehension \<open>[builder(nodes) for builder in builders]\<close>.\<close>

fun run_builders ::
  "'p partial list \<Rightarrow> ('p, 'st) heap \<Rightarrow> node_dict
     \<Rightarrow> error + (ref list \<times> ('p, 'st) heap \<times> node_dict)" where
  "run_builders [] h nd = Inr ([], h, nd)"
| "run_builders (b # bs) h nd =
     (case call_partial b h nd of
        Inl e \<Rightarrow> Inl e
      | Inr (r, h1, nd1) \<Rightarrow>
          (case run_builders bs h1 nd1 of
             Inl e \<Rightarrow> Inl e
           | Inr (rs, h2, nd2) \<Rightarrow> Inr (r # rs, h2, nd2)))"

subsection \<open>The public operations\<close>

text \<open>
  Every operation mutates the builder and either raises or returns; the model returns the
  error, or what the call returns together with the updated builder.  A call returns
  either the builder object itself (\<open>return self\<close>) or, when the body ends without a
  \<open>return\<close>, Python's \<open>None\<close>.
\<close>

datatype pyret = ReturnSelf | ReturnNone

text \<open>
  \<open>state_store(store_name, store, *args)\<close>; \<open>None\<close> for \<open>store\<close> is Python's \<open>None\<close>.
  In the duplicate branch the f-string evaluates \<open>store.name\<close> before the error object
  is constructed: a factory without that attribute raises \<open>AttributeError\<close> there.
\<close>

definition state_store ::
  "('p, 'st) TopologyBuilder \<Rightarrow> string \<Rightarrow> 'st store_factory option \<Rightarrow> string list
     \<Rightarrow> error + (pyret \<times> ('p, 'st) TopologyBuilder)" where
  "state_store b nm store args =
     (case store of
        None \<Rightarrow> Inl (KafkaStreamsError [''Store cannot be None''])
      | Some s \<Rightarrow>
          if nm \<in> dom (priv_state_stores b) then
            (case store_name s of
               None \<Rightarrow> Inl (AttributeError ''name'')
             | Some n \<Rightarrow>
                 Inl (KafkaStreamsError [''Store with name '' @ n @ '' already exists'']))
          else
            Inr (ReturnNone, b\<lparr>priv_state_stores := (priv_state_stores b)(nm \<mapsto> s)\<rparr>))"

definition source ::
  "('p, 'st) TopologyBuilder \<Rightarrow> string \<Rightarrow> string list
     \<Rightarrow> error + (pyret \<times> ('p, 'st) TopologyBuilder)" where
  "source b nm ts =
     Inr (ReturnSelf,
          b\<lparr>priv_sources := priv_sources b @ [Partial_build_source nm ts],
            topics := topics b @ ts\<rparr>)"

definition processor ::
  "('p, 'st) TopologyBuilder \<Rightarrow> string \<Rightarrow> 'p \<Rightarrow> string list
     \<Rightarrow> error + (pyret \<times> ('p, 'st) TopologyBuilder)" where
  "processor b nm processor_type parents =
     (if parents = [] then
        Inl (KafkaStreamsError
               [''Processor '' @ [CHR 0x27] @ ''%s'' @ [CHR 0x27]
                  @ '' must have a minimum of 1 input'', nm])
      else
        Inr (ReturnSelf,
             b\<lparr>priv_processors :=
                 priv_processors b @ [Partial_build_processor nm processor_type parents]\<rparr>))"

definition sink ::
  "('p, 'st) TopologyBuilder \<Rightarrow> string \<Rightarrow> string \<Rightarrow> string list
     \<Rightarrow> error + (pyret \<times> ('p, 'st) TopologyBuilder)" where
  "sink b nm topic parents =
     Inr (ReturnSelf,
          b\<lparr>priv_sinks := priv_sinks b @ [Partial_build_sink nm topic parents]\<rparr>)"

text \<open>
  \<open>build()\<close> starts from an empty node dictionary and runs the three lists of deferred
  builders against it, one after the other; then it calls every store factory.  The
  model returns the topology together with the object store its references point into.
\<close>

definition build ::
  "('p, 'st) TopologyBuilder \<Rightarrow> error + ('st Topology \<times> ('p, 'st) heap)" where
  "build b =
     (case run_builders (priv_sources b) [] Map.empty of
        Inl e \<Rightarrow> Inl e
      | Inr (srcs, h1, nd1) \<Rightarrow>
     (case run_builders (priv_processors b) h1 nd1 of
        Inl e \<Rightarrow> Inl e
      | Inr (procs, h2, nd2) \<Rightarrow>
     (case run_builders (priv_sinks b) h2 nd2 of
        Inl e \<Rightarrow> Inl e
      | Inr (snks, h3, nd3) \<Rightarrow>
          Inr (\<lparr>nodes = nd3, sources = srcs, processors = procs, sinks = snks,
                state_stores = (\<lambda>k. map_option create (priv_state_stores b k))\<rparr>,
               h3))))"

section \<open>The processing context\<close>

text \<open>\<open>_context.py\<close>, class \<open>Context\<close>: the current node is \<open>None\<close> or a node object.\<close>

record ('p, 'st) Context =
  currentNode :: "('p, 'st) ProcessorNode option"

definition Context_init :: "('p, 'st) Context" where
  "Context_init = \<lparr>currentNode = None\<rparr>"

definition get_store :: "('p, 'st) Context \<Rightarrow> string \<Rightarrow> error + 'st" where
  "get_store c nm =
     (case currentNode c of
        None \<Rightarrow> Inl (KafkaStreamsError [''Access of state from unknown node''])
      | Some n \<Rightarrow>
          (case stores n of
             None \<Rightarrow> Inl (AttributeError ''stores'')
           | Some m \<Rightarrow>
               if nm \<notin> dom m then
                 Inl (KafkaStreamsError
                        [''Store '' @ nm @ '' is not found in node '' @ name n])
               else
                 (case m nm of
                    None \<Rightarrow> Inl (KeyError nm)
                  | Some s \<Rightarrow> Inr s)))"

section \<open>Vocabulary of the properties\<close>

text \<open>
  What a deferred instruction was registered with: the name of its node, the parent names
  it declares (a source declares none) and the node object its builder allocates.
\<close>

fun partial_name :: "'p partial \<Rightarrow> string" where
  "partial_name (Partial_build_source nm ts) = nm"
| "partial_name (Partial_build_processor nm pt parents) = nm"
| "partial_name (Partial_build_sink nm topic parents) = nm"

fun partial_parents :: "'p partial \<Rightarrow> string list" where
  "partial_parents (Partial_build_source nm ts) = []"
| "partial_parents (Partial_build_processor nm pt parents) = parents"
| "partial_parents (Partial_build_sink nm topic parents) = parents"

fun partial_node :: "'p partial \<Rightarrow> ('p, 'st) ProcessorNode" where
  "partial_node (Partial_build_source nm ts) = ProcessorNode_init nm (SourceProcessor ts)"
| "partial_node (Partial_build_processor nm pt parents) =
     ProcessorNode_init nm (ProcessorInstance pt)"
| "partial_node (Partial_build_sink nm topic parents) =
     ProcessorNode_init nm (SinkProcessor topic)"

text \<open>
  The order in which \<open>build()\<close> resolves the instructions, and the condition that
  every declared parent name is the name of an instruction that comes earlier in a list
  of instructions (\<open>seen\<close> holds the names resolved before the list starts).
\<close>

definition resolution_order :: "('p, 'st) TopologyBuilder \<Rightarrow> 'p partial list" where
  "resolution_order b = priv_sources b @ priv_processors b @ priv_sinks b"

fun parents_earlier :: "string list \<Rightarrow> 'p partial list \<Rightarrow> bool" where
  "parents_earlier seen [] = True"
| "parents_earlier seen (b # bs) =
     (list_all (\<lambda>p. p \<in> set seen) (partial_parents b)
      \<and> parents_earlier (seen @ [partial_name b]) bs)"

text \<open>
  Two invariants of the resolution loop.  \<open>dict_consistent\<close> holds in every state the
  loop reaches: each entry of the node dictionary points to an allocated node that carries
  the entry's name; every reference that \<open>_add_node\<close> dereferences comes from the
  dictionary, so it always reads an allocated object.  \<open>resolved ds\<close> describes the state after the instructions \<open>ds\<close>
  have been resolved without error, when their names are pairwise different: node \<open>j\<close>
  of the object store belongs to instruction \<open>j\<close>, the dictionary maps exactly the
  names of \<open>ds\<close>, each to its node, and every declared parent has the child among its
  children.
\<close>

definition dict_consistent :: "('p, 'st) heap \<Rightarrow> node_dict \<Rightarrow> bool" where
  "dict_consistent h nd \<longleftrightarrow> (\<forall>k r. nd k = Some r \<longrightarrow> r < length h \<and> name (h ! r) = k)"

definition resolved :: "'p partial list \<Rightarrow> ('p, 'st) heap \<Rightarrow> node_dict \<Rightarrow> bool" where
  "resolved ds h nd \<longleftrightarrow>
     map name h = map partial_name ds
     \<and> (\<forall>k r. nd k = Some r \<longleftrightarrow> r < length ds \<and> partial_name (ds ! r) = k)
     \<and> (\<forall>j<length ds. \<forall>p\<in>set (partial_parents (ds ! j)).
           \<exists>i<j. partial_name (ds ! i) = p \<and> j \<in> set (children (h ! i)))"


section \<open>Supporting lemmas\<close>

subsection \<open>The three builders are one\<close>

lemma call_partial_eq:
  "call_partial b h nd =
     (case add_node (h @ [partial_node b]) nd (partial_name b) (length h) (partial_parents b) of
        Inl e \<Rightarrow> Inl e
      | Inr (h1, nd1) \<Rightarrow> Inr (length h, h1, nd1))"
  by (cases b) (simp_all add: build_source_def build_processor_def build_sink_def Let_def)

lemma name_partial_node [simp]: "name (partial_node b) = partial_name b"
  by (cases b) (simp_all add: ProcessorNode_init_def)

lemma stores_partial_node [simp]: "stores (partial_node b) = None"
  by (cases b) (simp_all add: ProcessorNode_init_def)

subsection \<open>Looking up the inputs and appending to the children lists\<close>

lemma lookup_inputs_ok:
  "\<forall>i\<in>set inputs. nd i \<noteq> None \<Longrightarrow>
     lookup_inputs nd inputs = Inr (map (\<lambda>i. the (nd i)) inputs)"
  by (induction inputs) auto

lemma lookup_inputs_missing:
  "lookup_inputs nd inputs = Inr rs \<Longrightarrow> \<forall>i\<in>set inputs. nd i \<noteq> None"
  by (induction inputs arbitrary: rs) (auto split: option.splits sum.splits)

lemma heap_update_nth:
  "(h[p := (h ! p)\<lparr>children := cs\<rparr>]) ! q =
     (if q = p \<and> p < length h then (h ! p)\<lparr>children := cs\<rparr> else h ! q)"
  by (cases "p < length h") (auto simp: nth_list_update list_update_beyond)

lemma append_children_frame:
  "append_children h nd c inputs = Inr h' \<Longrightarrow>
     length h' = length h
     \<and> (\<forall>q. name (h' ! q) = name (h ! q) \<and> stores (h' ! q) = stores (h ! q)
            \<and> node_processor (h' ! q) = node_processor (h ! q)
            \<and> set (children (h ! q)) \<subseteq> set (children (h' ! q)))"
proof (induction inputs arbitrary: h)
  case Nil
  then show ?case by simp
next
  case (Cons i inputs)
  then obtain p where p: "nd i = Some p" by (auto split: option.splits)
  let ?h1 = "h[p := (h ! p)\<lparr>children := children (h ! p) @ [c]\<rparr>]"
  from Cons.prems p have "append_children ?h1 nd c inputs = Inr h'" by simp
  from Cons.IH [OF this] show ?case
    by (auto simp: heap_update_nth split: if_splits)
qed

lemma append_children_adds:
  "append_children h nd c inputs = Inr h' \<Longrightarrow> i \<in> set inputs \<Longrightarrow> nd i = Some p \<Longrightarrow>
     p < length h \<Longrightarrow> c \<in> set (children (h' ! p))"
proof (induction inputs arbitrary: h)
  case Nil
  then show ?case by simp
next
  case (Cons a inputs)
  then obtain pa where pa: "nd a = Some pa" by (auto split: option.splits)
  let ?h1 = "h[pa := (h ! pa)\<lparr>children := children (h ! pa) @ [c]\<rparr>]"
  from Cons.prems pa have run: "append_children ?h1 nd c inputs = Inr h'" by simp
  show ?case
  proof (cases "a = i")
    case True
    with pa Cons.prems have "pa = p" by simp
    with Cons.prems have "c \<in> set (children (?h1 ! p))" by (simp add: heap_update_nth)
    with append_children_frame [OF run] show ?thesis by blast
  next
    case False
    with Cons.prems have "i \<in> set inputs" by simp
    from Cons.IH [OF run this Cons.prems(3)] Cons.prems(4) show ?thesis by simp
  qed
qed

lemma append_children_ok:
  "\<forall>i\<in>set inputs. nd i \<noteq> None \<Longrightarrow> \<exists>h'. append_children h nd c inputs = Inr h'"
  by (induction inputs arbitrary: h) auto


subsection \<open>Resolving one instruction of a well-formed registration\<close>

lemma resolved_length: "resolved ds h nd \<Longrightarrow> length h = length ds"
  unfolding resolved_def by (metis length_map)

lemma resolved_name: "resolved ds h nd \<Longrightarrow> r < length ds \<Longrightarrow> name (h ! r) = partial_name (ds ! r)"
  unfolding resolved_def by (metis length_map nth_map)

lemma resolved_dict:
  "resolved ds h nd \<Longrightarrow> nd k = Some r \<longleftrightarrow> r < length ds \<and> partial_name (ds ! r) = k"
  unfolding resolved_def by blast

lemma resolved_edge:
  "resolved ds h nd \<Longrightarrow> j < length ds \<Longrightarrow> p \<in> set (partial_parents (ds ! j)) \<Longrightarrow>
     \<exists>i<j. partial_name (ds ! i) = p \<and> j \<in> set (children (h ! i))"
  unfolding resolved_def by blast

lemma resolved_empty: "resolved [] [] Map.empty"
  by (simp add: resolved_def)

lemma call_partial_resolved:
  assumes inv: "resolved ds h nd"
    and fresh: "partial_name b \<notin> set (map partial_name ds)"
    and par: "set (partial_parents b) \<subseteq> set (map partial_name ds)"
  shows "\<exists>h' nd'. call_partial b h nd = Inr (length ds, h', nd') \<and> resolved (ds @ [b]) h' nd'"
proof -
  let ?nm = "partial_name b"
  let ?h0 = "h @ [partial_node b]"
  let ?nd1 = "nd(?nm \<mapsto> length h)"
  have len: "length h = length ds" by (rule resolved_length [OF inv])
  have nm_new: "?nm \<notin> dom nd"
  proof
    assume "?nm \<in> dom nd"
    then obtain r where "nd ?nm = Some r" by auto
    with resolved_dict [OF inv] have "r < length ds" "partial_name (ds ! r) = ?nm" by auto
    then have "?nm \<in> set (map partial_name ds)" by (metis length_map nth_map nth_mem)
    with fresh show False by simp
  qed
  have parent_ref: "\<exists>r<length ds. partial_name (ds ! r) = i \<and> ?nd1 i = Some r \<and> i \<noteq> ?nm"
    if "i \<in> set (partial_parents b)" for i
  proof -
    from that par have mem: "i \<in> set (map partial_name ds)" by blast
    then obtain r where r: "r < length ds" "partial_name (ds ! r) = i"
      by (metis in_set_conv_nth length_map nth_map)
    with resolved_dict [OF inv] have "nd i = Some r" by blast
    moreover from mem fresh have "i \<noteq> ?nm" by blast
    ultimately show ?thesis using r by auto
  qed
  have present: "\<forall>i\<in>set (partial_parents b). ?nd1 i \<noteq> None"
    using parent_ref by fastforce
  have look: "lookup_inputs ?nd1 (partial_parents b) =
                Inr (map (\<lambda>i. the (?nd1 i)) (partial_parents b))"
    by (rule lookup_inputs_ok [OF present])
  have input_name: "name (?h0 ! the (?nd1 i)) = i" if "i \<in> set (partial_parents b)" for i
  proof -
    from parent_ref [OF that] obtain r where
      r: "r < length ds" "partial_name (ds ! r) = i" "?nd1 i = Some r" by blast
    then have "name (?h0 ! r) = i" using resolved_name [OF inv, of r] len by (simp add: nth_append)
    with r show ?thesis by simp
  qed
  have no_self: "\<not> list_ex (\<lambda>n. name (?h0 ! n) = ?nm) (map (\<lambda>i. the (?nd1 i)) (partial_parents b))"
  proof -
    have "name (?h0 ! the (?nd1 i)) \<noteq> ?nm" if "i \<in> set (partial_parents b)" for i
      using input_name [OF that] parent_ref [OF that] by auto
    then show ?thesis unfolding list_ex_iff by auto
  qed
  have all_known: "\<not> list_ex (\<lambda>n. name (?h0 ! n) \<notin> dom ?nd1) (map (\<lambda>i. the (?nd1 i)) (partial_parents b))"
  proof -
    have "name (?h0 ! the (?nd1 i)) \<in> dom ?nd1" if "i \<in> set (partial_parents b)" for i
      using input_name [OF that] parent_ref [OF that] by auto
    then show ?thesis unfolding list_ex_iff by auto
  qed
  from append_children_ok [OF present] obtain h' where
    app: "append_children ?h0 ?nd1 (length h) (partial_parents b) = Inr h'" by blast
  have add: "add_node ?h0 nd ?nm (length h) (partial_parents b) = Inr (h', ?nd1)"
    using nm_new look no_self all_known app by (simp add: add_node_def Let_def)
  have call: "call_partial b h nd = Inr (length ds, h', ?nd1)"
    using add len by (simp add: call_partial_eq)
  note frame = append_children_frame [OF app]
  have len': "length h' = Suc (length ds)" using frame len by simp
  have names: "map name h' = map partial_name (ds @ [b])"
  proof (rule nth_equalityI)
    show "length (map name h') = length (map partial_name (ds @ [b]))" using len' by simp
  next
    fix q assume "q < length (map name h')"
    then have q: "q < Suc (length ds)" using len' by simp
    have "name (h' ! q) = name (?h0 ! q)" using frame by blast
    also have "\<dots> = partial_name ((ds @ [b]) ! q)"
    proof (cases "q < length ds")
      case True
      then show ?thesis using resolved_name [OF inv True] len by (simp add: nth_append)
    next
      case False
      with q have "q = length ds" by simp
      then show ?thesis using len by (simp add: nth_append)
    qed
    finally show "map name h' ! q = map partial_name (ds @ [b]) ! q"
      using q len' by (simp add: nth_append)
  qed
  have dict: "?nd1 k = Some r \<longleftrightarrow> r < length (ds @ [b]) \<and> partial_name ((ds @ [b]) ! r) = k"
    for k r
  proof (cases "k = ?nm")
    case True
    have "\<not> (r < length ds \<and> partial_name (ds ! r) = ?nm)"
      using fresh by (metis length_map nth_map nth_mem)
    then show ?thesis using True len by (auto simp: nth_append less_Suc_eq)
  next
    case False
    then have "?nd1 k = nd k" by simp
    then show ?thesis using resolved_dict [OF inv, of k r] False
      by (auto simp: nth_append less_Suc_eq)
  qed
  have edges: "\<exists>i<j. partial_name ((ds @ [b]) ! i) = p \<and> j \<in> set (children (h' ! i))"
    if j: "j < length (ds @ [b])" and p: "p \<in> set (partial_parents ((ds @ [b]) ! j))" for j p
  proof (cases "j < length ds")
    case True
    with p have "p \<in> set (partial_parents (ds ! j))" by (simp add: nth_append)
    from resolved_edge [OF inv True this] obtain i where
      i: "i < j" "partial_name (ds ! i) = p" "j \<in> set (children (h ! i))" by blast
    then have "i < length h" using True len by simp
    then have "j \<in> set (children (?h0 ! i))" using i by (simp add: nth_append)
    then have "j \<in> set (children (h' ! i))" using frame by blast
    moreover have "partial_name ((ds @ [b]) ! i) = p" using i True by (simp add: nth_append)
    ultimately show ?thesis using i by blast
  next
    case False
    with j have jeq: "j = length ds" by simp
    with p have pb: "p \<in> set (partial_parents b)" by simp
    from parent_ref [OF pb] obtain r where
      r: "r < length ds" "partial_name (ds ! r) = p" "?nd1 p = Some r" by blast
    have "length h \<in> set (children (h' ! r))"
      by (rule append_children_adds [OF app pb r(3)]) (use r len in simp)
    then show ?thesis using r jeq len by (auto simp: nth_append)
  qed
  have "resolved (ds @ [b]) h' ?nd1"
    unfolding resolved_def using names dict edges by blast
  with call show ?thesis by blast
qed

subsection \<open>Resolving a list of instructions\<close>

lemma parents_earlier_append:
  "parents_earlier seen (xs @ ys) \<longleftrightarrow>
     parents_earlier seen xs \<and> parents_earlier (seen @ map partial_name xs) ys"
  by (induction xs arbitrary: seen) auto

lemma run_builders_append:
  "run_builders (xs @ ys) h nd =
     (case run_builders xs h nd of
        Inl e \<Rightarrow> Inl e
      | Inr (rs, h1, nd1) \<Rightarrow>
          (case run_builders ys h1 nd1 of
             Inl e \<Rightarrow> Inl e
           | Inr (rs', h2, nd2) \<Rightarrow> Inr (rs @ rs', h2, nd2)))"
  by (induction xs arbitrary: h nd) (auto split: sum.splits)

lemma run_builders_resolved:
  assumes "resolved ds h nd"
    and "distinct (map partial_name (ds @ bs))"
    and "parents_earlier (map partial_name ds) bs"
  shows "\<exists>h' nd'. run_builders bs h nd = Inr ([length ds..<length ds + length bs], h', nd')
           \<and> resolved (ds @ bs) h' nd'"
  using assms
proof (induction bs arbitrary: ds h nd)
  case Nil
  then show ?case by simp
next
  case (Cons b bs)
  have fresh: "partial_name b \<notin> set (map partial_name ds)"
    using Cons.prems(2) by auto
  have par: "set (partial_parents b) \<subseteq> set (map partial_name ds)"
    using Cons.prems(3) by (auto simp: list_all_iff)
  from call_partial_resolved [OF Cons.prems(1) fresh par] obtain h1 nd1 where
    step: "call_partial b h nd = Inr (length ds, h1, nd1)" and inv1: "resolved (ds @ [b]) h1 nd1"
    by blast
  have "distinct (map partial_name ((ds @ [b]) @ bs))" using Cons.prems(2) by simp
  moreover have "parents_earlier (map partial_name (ds @ [b])) bs" using Cons.prems(3) by simp
  ultimately obtain h' nd' where
    rest: "run_builders bs h1 nd1 =
             Inr ([length (ds @ [b])..<length (ds @ [b]) + length bs], h', nd')"
    and inv': "resolved ((ds @ [b]) @ bs) h' nd'"
    using Cons.IH [OF inv1] by blast
  have "run_builders (b # bs) h nd =
          Inr (length ds # [Suc (length ds)..<Suc (length ds) + length bs], h', nd')"
    using step rest by simp
  also have "length ds # [Suc (length ds)..<Suc (length ds) + length bs] =
               [length ds..<length ds + length (b # bs)]"
  proof -
    have e: "Suc (length ds) + length bs = length ds + length (b # bs)" by simp
    show ?thesis unfolding e by (rule upt_conv_Cons [symmetric]) simp
  qed
  finally show ?case using inv' by auto
qed

subsection \<open>Only well-formed registrations are resolved without error\<close>

text \<open>
  An instruction that is resolved without error has a new name, and each of its declared
  parents is the name of a node resolved before it (in particular not its own name).
\<close>

lemma add_node_Inr:
  assumes "add_node (h @ [n]) nd nm (length h) inputs = Inr (h', nd')" and "name n = nm"
  shows "nm \<notin> dom nd \<and> nd' = nd(nm \<mapsto> length h) \<and> set inputs \<subseteq> dom nd \<and> nm \<notin> set inputs"
proof -
  let ?nd1 = "nd(nm \<mapsto> length h)"
  from assms(1) have new: "nm \<notin> dom nd" by (auto simp: add_node_def split: if_splits)
  from assms(1) new obtain rs where
    look: "lookup_inputs ?nd1 inputs = Inr rs"
    and noself: "\<not> list_ex (\<lambda>r. name ((h @ [n]) ! r) = nm) rs"
    and nd': "nd' = ?nd1"
    by (auto simp: add_node_def Let_def split: if_splits sum.splits)
  from lookup_inputs_missing [OF look] have pres: "\<forall>i\<in>set inputs. ?nd1 i \<noteq> None" .
  with lookup_inputs_ok [of inputs ?nd1] look have rs: "rs = map (\<lambda>i. the (?nd1 i)) inputs" by simp
  have "nm \<notin> set inputs"
  proof
    assume "nm \<in> set inputs"
    then have "length h \<in> set rs" unfolding rs by force
    with noself assms(2) show False by (auto simp: list_ex_iff)
  qed
  moreover from this pres have "set inputs \<subseteq> dom nd"
    by (auto simp: dom_def split: if_splits)
  ultimately show ?thesis using new nd' by blast
qed

lemma call_partial_Inr:
  assumes "call_partial b h nd = Inr (r, h', nd')"
  shows "partial_name b \<notin> dom nd \<and> nd' = nd(partial_name b \<mapsto> length h)
           \<and> set (partial_parents b) \<subseteq> dom nd"
proof -
  from assms have "add_node (h @ [partial_node b]) nd (partial_name b) (length h) (partial_parents b)
                     = Inr (h', nd')"
    by (auto simp: call_partial_eq split: sum.splits)
  from add_node_Inr [OF this] show ?thesis by simp
qed

lemma run_builders_Inr:
  "run_builders bs h nd = Inr (rs, h', nd') \<Longrightarrow> dom nd = set seen \<Longrightarrow>
     distinct (map partial_name bs) \<and> set (map partial_name bs) \<inter> dom nd = {}
     \<and> dom nd' = dom nd \<union> set (map partial_name bs) \<and> parents_earlier seen bs"
proof (induction bs arbitrary: h nd rs seen)
  case Nil
  then show ?case by simp
next
  case (Cons b bs)
  from Cons.prems(1) obtain r h1 nd1 rs1 where
    step: "call_partial b h nd = Inr (r, h1, nd1)"
    and rest: "run_builders bs h1 nd1 = Inr (rs1, h', nd')"
    by (auto split: sum.splits)
  from call_partial_Inr [OF step] have
    new: "partial_name b \<notin> dom nd" and par: "set (partial_parents b) \<subseteq> dom nd"
    and dom1: "dom nd1 = insert (partial_name b) (dom nd)"
    by auto
  from dom1 Cons.prems(2) have "dom nd1 = set (seen @ [partial_name b])" by auto
  from Cons.IH [OF rest this] have
    "distinct (map partial_name bs)" "set (map partial_name bs) \<inter> dom nd1 = {}"
    "dom nd' = dom nd1 \<union> set (map partial_name bs)"
    "parents_earlier (seen @ [partial_name b]) bs"
    by blast+
  with new par dom1 Cons.prems(2) show ?case
    by (auto simp: list_all_iff)
qed

subsection \<open>\<open>build()\<close> as one pass over the resolution order\<close>

lemma run_builders_length:
  "run_builders bs h nd = Inr (rs, h', nd') \<Longrightarrow> length rs = length bs"
  by (induction bs arbitrary: h nd rs) (auto split: sum.splits)

lemma build_one_pass:
  "build b =
     (case run_builders (resolution_order b) [] Map.empty of
        Inl e \<Rightarrow> Inl e
      | Inr (rs, h, nd) \<Rightarrow>
          Inr (\<lparr>nodes = nd,
                sources = take (length (priv_sources b)) rs,
                processors = take (length (priv_processors b)) (drop (length (priv_sources b)) rs),
                sinks = drop (length (priv_sources b) + length (priv_processors b)) rs,
                state_stores = (\<lambda>k. map_option create (priv_state_stores b k))\<rparr>, h))"
  by (auto simp: build_def resolution_order_def run_builders_append
           dest!: run_builders_length split: sum.splits)


lemma build_Inr_wellformed:
  assumes "build b = Inr (topo, h)"
  shows "distinct (map partial_name (resolution_order b)) \<and> parents_earlier [] (resolution_order b)"
proof -
  from assms obtain rs nd where
    "run_builders (resolution_order b) [] Map.empty = Inr (rs, h, nd)"
    by (auto simp: build_one_pass split: sum.splits)
  from run_builders_Inr [OF this, of "[]"] show ?thesis by simp
qed

subsection \<open>No builder sets the attribute \<open>stores\<close>\<close>

lemma add_node_frame:
  assumes "add_node h nd nm r inputs = Inr (h', nd')"
  shows "length h' = length h \<and> (\<forall>q. stores (h' ! q) = stores (h ! q))"
proof -
  from assms obtain nd1 where "append_children h nd1 r inputs = Inr h'"
    by (auto simp: add_node_def Let_def split: if_splits sum.splits)
  from append_children_frame [OF this] show ?thesis by blast
qed

lemma call_partial_stores:
  assumes "call_partial b h nd = Inr (r, h', nd')" and "list_all (\<lambda>n. stores n = None) h"
  shows "list_all (\<lambda>n. stores n = None) h'"
proof -
  from assms(1) have "add_node (h @ [partial_node b]) nd (partial_name b) (length h) (partial_parents b)
                        = Inr (h', nd')"
    by (auto simp: call_partial_eq split: sum.splits)
  from add_node_frame [OF this] have
    len: "length h' = Suc (length h)" and st: "\<And>q. stores (h' ! q) = stores ((h @ [partial_node b]) ! q)"
    by auto
  have "stores (h' ! q) = None" if "q < length h'" for q
    using that len assms(2) unfolding st by (auto simp: nth_append list_all_length less_Suc_eq)
  then show ?thesis by (simp add: list_all_length)
qed

lemma run_builders_stores:
  "run_builders bs h nd = Inr (rs, h', nd') \<Longrightarrow> list_all (\<lambda>n. stores n = None) h \<Longrightarrow>
     list_all (\<lambda>n. stores n = None) h'"
proof (induction bs arbitrary: h nd rs)
  case Nil
  then show ?case by simp
next
  case (Cons b bs)
  from Cons.prems(1) obtain r h1 nd1 rs1 where
    step: "call_partial b h nd = Inr (r, h1, nd1)"
    and rest: "run_builders bs h1 nd1 = Inr (rs1, h', nd')"
    by (auto split: sum.splits)
  from Cons.IH [OF rest call_partial_stores [OF step Cons.prems(2)]] show ?case .
qed


subsection \<open>Registrations on which \<open>build()\<close> raises\<close>

lemma parents_earlier_mem:
  "parents_earlier seen bs \<Longrightarrow> x \<in> set bs \<Longrightarrow>
     set (partial_parents x) \<subseteq> set seen \<union> set (map partial_name bs)"
proof (induction bs arbitrary: seen)
  case Nil
  then show ?case by simp
next
  case (Cons b bs)
  show ?case
  proof (cases "x = b")
    case True
    with Cons.prems show ?thesis by (auto simp: list_all_iff)
  next
    case False
    with Cons.prems have "x \<in> set bs" "parents_earlier (seen @ [partial_name b]) bs" by auto
    from Cons.IH [OF this(2,1)] show ?thesis by auto
  qed
qed

lemma parents_earlier_self:
  "parents_earlier seen bs \<Longrightarrow> distinct (seen @ map partial_name bs) \<Longrightarrow> x \<in> set bs \<Longrightarrow>
     partial_name x \<notin> set (partial_parents x)"
proof (induction bs arbitrary: seen)
  case Nil
  then show ?case by simp
next
  case (Cons b bs)
  show ?case
  proof (cases "x = b")
    case True
    with Cons.prems show ?thesis by (auto simp: list_all_iff)
  next
    case False
    with Cons.prems have "x \<in> set bs" "parents_earlier (seen @ [partial_name b]) bs"
      "distinct ((seen @ [partial_name b]) @ map partial_name bs)" by auto
    then show ?thesis using Cons.IH by blast
  qed
qed

lemma build_fails_duplicate_name:
  "\<not> distinct (map partial_name (resolution_order b)) \<Longrightarrow> \<exists>e. build b = Inl e"
  using build_Inr_wellformed [of b] by (cases "build b") auto

lemma build_fails_unregistered_parent:
  assumes "x \<in> set (resolution_order b)" and "p \<in> set (partial_parents x)"
    and "p \<notin> set (map partial_name (resolution_order b))"
  shows "\<exists>e. build b = Inl e"
proof (cases "build b")
  case (Inl e)
  then show ?thesis by blast
next
  case (Inr res)
  with build_Inr_wellformed [of b "fst res" "snd res"]
  have "parents_earlier [] (resolution_order b)" by simp
  from parents_earlier_mem [OF this assms(1)] assms(2,3) show ?thesis by auto
qed

lemma build_fails_self_input:
  assumes "x \<in> set (resolution_order b)" and "partial_name x \<in> set (partial_parents x)"
  shows "\<exists>e. build b = Inl e"
proof (cases "build b")
  case (Inl e)
  then show ?thesis by blast
next
  case (Inr res)
  with build_Inr_wellformed [of b "fst res" "snd res"]
  have "parents_earlier [] (resolution_order b)" "distinct ([] @ map partial_name (resolution_order b))"
    by simp_all
  from parents_earlier_self [OF this assms(1)] assms(2) show ?thesis by simp
qed

subsection \<open>The exceptions that \<open>build()\<close> can raise\<close>

text \<open>
  The node dictionary stays consistent with the object store, so the names of the looked-up
  inputs are always keys of the dictionary: the third \<open>raise\<close> of \<open>_add_node\<close> is
  never reached.  A failing \<open>build()\<close> raises the duplicate-name error, the self-input
  error, or the \<open>KeyError\<close> of a declared parent name.
\<close>

lemma dict_consistent_empty: "dict_consistent [] Map.empty"
  by (simp add: dict_consistent_def)

lemma dict_consistent_alloc:
  assumes "dict_consistent h nd" and "name n = nm"
  shows "dict_consistent (h @ [n]) (nd(nm \<mapsto> length h))"
  using assms by (fastforce simp: dict_consistent_def nth_append)

lemma lookup_inputs_consistent:
  "dict_consistent h nd \<Longrightarrow> lookup_inputs nd inputs = Inr rs \<Longrightarrow>
     \<forall>r\<in>set rs. name (h ! r) \<in> dom nd"
proof (induction inputs arbitrary: rs)
  case Nil
  then show ?case by simp
next
  case (Cons i inputs)
  then show ?case
    by (auto simp: dict_consistent_def split: option.splits sum.splits)
qed

lemma append_children_consistent:
  assumes "append_children h nd1 c inputs = Inr h'" and "dict_consistent h nd"
  shows "dict_consistent h' nd"
  using append_children_frame [OF assms(1)] assms(2)
  by (simp add: dict_consistent_def)

lemma append_children_never_NameError:
  "append_children h nd c inputs \<noteq> Inl (NameError x)"
  by (induction inputs arbitrary: h) (auto split: option.splits)

lemma lookup_inputs_never_NameError:
  "lookup_inputs nd inputs \<noteq> Inl (NameError x)"
  by (induction inputs) (auto split: option.splits sum.splits)

lemma add_node_consistent:
  assumes "dict_consistent h nd" and "name n = nm"
  shows "add_node (h @ [n]) nd nm (length h) inputs \<noteq> Inl (NameError x)"
    and "add_node (h @ [n]) nd nm (length h) inputs = Inr (h', nd') \<Longrightarrow> dict_consistent h' nd'"
proof -
  let ?h0 = "h @ [n]" and ?nd1 = "nd(nm \<mapsto> length h)"
  have c1: "dict_consistent ?h0 ?nd1" by (rule dict_consistent_alloc [OF assms])
  have known: "\<not> list_ex (\<lambda>r. name (?h0 ! r) \<notin> dom ?nd1) rs"
    if "lookup_inputs ?nd1 inputs = Inr rs" for rs
    using lookup_inputs_consistent [OF c1 that] by (simp add: list_ex_iff)
  show "add_node ?h0 nd nm (length h) inputs \<noteq> Inl (NameError x)"
    using known lookup_inputs_never_NameError [of ?nd1 inputs x]
      append_children_never_NameError [of ?h0 ?nd1 "length h" inputs x]
    by (auto simp: add_node_def Let_def split: sum.splits)
  show "dict_consistent h' nd'" if "add_node ?h0 nd nm (length h) inputs = Inr (h', nd')"
  proof -
    from that have "append_children ?h0 ?nd1 (length h) inputs = Inr h'" and "nd' = ?nd1"
      by (auto simp: add_node_def Let_def split: if_splits sum.splits)
    with append_children_consistent [OF _ c1] show ?thesis by simp
  qed
qed

lemma call_partial_consistent:
  assumes "dict_consistent h nd"
  shows "call_partial b h nd \<noteq> Inl (NameError x)"
    and "call_partial b h nd = Inr (r, h', nd') \<Longrightarrow> dict_consistent h' nd' \<and> r < length h'"
proof -
  note a = add_node_consistent [OF assms name_partial_node, of b]
  show "call_partial b h nd \<noteq> Inl (NameError x)"
    using a(1) [of "partial_parents b" x] by (auto simp: call_partial_eq split: sum.splits)
  show "dict_consistent h' nd' \<and> r < length h'" if "call_partial b h nd = Inr (r, h', nd')"
  proof -
    from that have add: "add_node (h @ [partial_node b]) nd (partial_name b) (length h) (partial_parents b)
                       = Inr (h', nd')" and r: "r = length h"
      by (auto simp: call_partial_eq split: sum.splits)
    from add_node_frame [OF add] r a(2) [OF add] show ?thesis by simp
  qed
qed

lemma run_builders_consistent:
  "dict_consistent h nd \<Longrightarrow> run_builders bs h nd \<noteq> Inl (NameError x)"
  "dict_consistent h nd \<Longrightarrow> run_builders bs h nd = Inr (rs, h', nd') \<Longrightarrow>
     dict_consistent h' nd'"
proof (induction bs arbitrary: h nd rs)
  case Nil
  { case 1 show ?case by simp }
  { case 2 then show ?case by simp }
next
  case (Cons b bs)
  { case 1
    show ?case
    proof (cases "call_partial b h nd")
      case (Inl e)
      with call_partial_consistent(1) [OF 1, of b x] show ?thesis by auto
    next
      case (Inr res)
      obtain r h1 nd1 where res: "res = (r, h1, nd1)" by (cases res) auto
      from call_partial_consistent(2) [OF 1] Inr res have "dict_consistent h1 nd1" by blast
      from Cons.IH(1) [OF this] Inr res show ?thesis by (auto split: sum.splits)
    qed }
  { case 2
    from 2(2) obtain r h1 nd1 rs1 where
      step: "call_partial b h nd = Inr (r, h1, nd1)"
      and rest: "run_builders bs h1 nd1 = Inr (rs1, h', nd')"
      by (auto split: sum.splits)
    from call_partial_consistent(2) [OF 2(1) step] have "dict_consistent h1 nd1" by blast
    from Cons.IH(2) [OF this rest] show ?case . }
qed

lemma lookup_inputs_Inl:
  "lookup_inputs nd inputs = Inl e \<Longrightarrow> \<exists>k\<in>set inputs. e = KeyError k \<and> nd k = None"
  by (induction inputs) (auto split: option.splits sum.splits)

lemma append_children_Inl:
  "append_children h nd c inputs = Inl e \<Longrightarrow> \<exists>k\<in>set inputs. e = KeyError k \<and> nd k = None"
  by (induction inputs arbitrary: h) (auto split: option.splits)

lemma add_node_Inl:
  assumes "add_node (h @ [n]) nd nm (length h) inputs = Inl e"
    and "dict_consistent h nd" and "name n = nm"
  shows "e = KafkaStreamsError
               [''A processor with the name '' @ [CHR 0x27] @ nm @ [CHR 0x27]
                  @ '' already added to this topology''] \<and> nm \<in> dom nd
         \<or> e = KafkaStreamsError [''A processor cannot have itself as an input'']
             \<and> nm \<in> set inputs
         \<or> (\<exists>k\<in>set inputs. e = KeyError k \<and> k \<notin> dom nd \<and> k \<noteq> nm)"
proof (cases "nm \<in> dom nd")
  case True
  with assms(1) show ?thesis by (simp add: add_node_def)
next
  case False
  let ?h0 = "h @ [n]" and ?nd1 = "nd(nm \<mapsto> length h)"
  have c1: "dict_consistent ?h0 ?nd1" by (rule dict_consistent_alloc [OF assms(2,3)])
  show ?thesis
  proof (cases "lookup_inputs ?nd1 inputs")
    case (Inl e')
    with assms(1) False have "e = e'" by (simp add: add_node_def)
    with lookup_inputs_Inl [OF Inl] show ?thesis by (auto split: if_splits)
  next
    case (Inr rs)
    from lookup_inputs_missing [OF Inr] have pres: "\<forall>i\<in>set inputs. ?nd1 i \<noteq> None" .
    with lookup_inputs_ok [of inputs ?nd1] Inr have rs: "rs = map (\<lambda>i. the (?nd1 i)) inputs"
      by simp
    have known: "\<not> list_ex (\<lambda>r. name (?h0 ! r) \<notin> dom ?nd1) rs"
      using lookup_inputs_consistent [OF c1 Inr] by (simp add: list_ex_iff)
    from append_children_ok [OF pres] obtain h' where
      "append_children ?h0 ?nd1 (length h) inputs = Inr h'" by blast
    with assms(1) False Inr known have
      self: "list_ex (\<lambda>r. name (?h0 ! r) = nm) rs"
      and e: "e = KafkaStreamsError [''A processor cannot have itself as an input'']"
      by (auto simp: add_node_def Let_def split: if_splits)
    from self obtain i where i: "i \<in> set inputs" "name (?h0 ! the (?nd1 i)) = nm"
      unfolding rs list_ex_iff by auto
    from pres i(1) obtain r where r: "?nd1 i = Some r" by auto
    with c1 have "name (?h0 ! r) = i" by (simp add: dict_consistent_def)
    with i r have "nm \<in> set inputs" by simp
    with e show ?thesis by simp
  qed
qed

lemma call_partial_Inl:
  assumes "call_partial b h nd = Inl e" and "dict_consistent h nd"
  shows "e = KafkaStreamsError
               [''A processor with the name '' @ [CHR 0x27] @ partial_name b @ [CHR 0x27]
                  @ '' already added to this topology''] \<and> partial_name b \<in> dom nd
         \<or> e = KafkaStreamsError [''A processor cannot have itself as an input'']
             \<and> partial_name b \<in> set (partial_parents b)
         \<or> (\<exists>k\<in>set (partial_parents b). e = KeyError k \<and> k \<notin> dom nd \<and> k \<noteq> partial_name b)"
proof -
  from assms(1) have
    "add_node (h @ [partial_node b]) nd (partial_name b) (length h) (partial_parents b) = Inl e"
    by (auto simp: call_partial_eq split: sum.splits)
  from add_node_Inl [OF this assms(2) name_partial_node] show ?thesis .
qed

lemma run_builders_Inl:
  "run_builders bs h nd = Inl e \<Longrightarrow> dict_consistent h nd \<Longrightarrow>
     (\<exists>x\<in>set bs.
        e = KafkaStreamsError
              [''A processor with the name '' @ [CHR 0x27] @ partial_name x @ [CHR 0x27]
                 @ '' already added to this topology'']
        \<or> e = KafkaStreamsError [''A processor cannot have itself as an input'']
            \<and> partial_name x \<in> set (partial_parents x)
        \<or> (\<exists>k\<in>set (partial_parents x). e = KeyError k))"
proof (induction bs arbitrary: h nd)
  case Nil
  then show ?case by simp
next
  case (Cons b bs)
  show ?case
  proof (cases "call_partial b h nd")
    case (Inl e')
    with Cons.prems(1) have "e' = e" by simp
    with call_partial_Inl [OF Inl Cons.prems(2)] show ?thesis by auto
  next
    case (Inr res)
    obtain r h1 nd1 where res: "res = (r, h1, nd1)" by (cases res) auto
    from call_partial_consistent(2) [OF Cons.prems(2)] Inr res have c1: "dict_consistent h1 nd1"
      by blast
    from Cons.prems(1) Inr res have "run_builders bs h1 nd1 = Inl e"
      by (auto split: sum.splits)
    from Cons.IH [OF this c1] show ?thesis by auto
  qed
qed

lemma build_Inl:
  fixes b :: "('p, 'st) TopologyBuilder"
  assumes "build b = Inl e"
  shows "\<exists>x\<in>set (resolution_order b).
        e = KafkaStreamsError
              [''A processor with the name '' @ [CHR 0x27] @ partial_name x @ [CHR 0x27]
                 @ '' already added to this topology'']
        \<or> e = KafkaStreamsError [''A processor cannot have itself as an input'']
            \<and> partial_name x \<in> set (partial_parents x)
        \<or> (\<exists>k\<in>set (partial_parents x). e = KeyError k)"
proof -
  from assms have "run_builders (resolution_order b) ([] :: ('p, 'st) heap) Map.empty = Inl e"
    by (auto simp: build_one_pass split: sum.splits)
  from run_builders_Inl [OF this dict_consistent_empty] show ?thesis .
qed

subsection \<open>The outcomes of \<open>get_store\<close>\<close>

lemma get_store_unbound:
  "currentNode c = None \<Longrightarrow>
     get_store c nm = Inl (KafkaStreamsError [''Access of state from unknown node''])"
  by (simp add: get_store_def)

lemma get_store_returns_iff:
  "(\<exists>s. get_store c nm = Inr s) \<longleftrightarrow>
     (\<exists>n m. currentNode c = Some n \<and> stores n = Some m \<and> nm \<in> dom m)"
  by (auto simp: get_store_def split: option.splits)

lemma get_store_returns_store:
  "currentNode c = Some n \<Longrightarrow> stores n = Some m \<Longrightarrow> m nm = Some s \<Longrightarrow> get_store c nm = Inr s"
  by (auto simp: get_store_def)

lemma get_store_not_found:
  "currentNode c = Some n \<Longrightarrow> stores n = Some m \<Longrightarrow> nm \<notin> dom m \<Longrightarrow>
     get_store c nm =
       Inl (KafkaStreamsError [''Store '' @ nm @ '' is not found in node '' @ name n])"
  by (simp add: get_store_def)

lemma get_store_no_stores_attribute:
  "currentNode c = Some n \<Longrightarrow> stores n = None \<Longrightarrow> get_store c nm = Inl (AttributeError ''stores'')"
  by (simp add: get_store_def)

subsection \<open>The outcomes of \<open>state_store\<close>\<close>

lemma state_store_None:
  "state_store b nm None args = Inl (KafkaStreamsError [''Store cannot be None''])"
  by (simp add: state_store_def)

lemma state_store_fresh:
  "nm \<notin> dom (priv_state_stores b) \<Longrightarrow>
     state_store b nm (Some s) args =
       Inr (ReturnNone, b\<lparr>priv_state_stores := (priv_state_stores b)(nm \<mapsto> s)\<rparr>)"
  by (simp add: state_store_def)

lemma state_store_duplicate_named:
  "nm \<in> dom (priv_state_stores b) \<Longrightarrow> store_name s = Some n \<Longrightarrow>
     state_store b nm (Some s) args =
       Inl (KafkaStreamsError [''Store with name '' @ n @ '' already exists''])"
  by (simp add: state_store_def)

lemma state_store_duplicate_unnamed:
  "nm \<in> dom (priv_state_stores b) \<Longrightarrow> store_name s = None \<Longrightarrow>
     state_store b nm (Some s) args = Inl (AttributeError ''name'')"
  by (simp add: state_store_def)

lemma state_store_second_call:
  "state_store b nm (Some s) args = Inr (r, b1) \<Longrightarrow>
     state_store b1 nm (Some s2) args2 =
       (case store_name s2 of
          None \<Rightarrow> Inl (AttributeError ''name'')
        | Some n \<Rightarrow> Inl (KafkaStreamsError [''Store with name '' @ n @ '' already exists'']))"
  by (auto simp: state_store_def split: if_splits option.splits)

section \<open>The claims\<close>

subsection \<open>Building a well-formed topology\<close>

text \<open>
  C1.  Take any builder whose registered nodes have pairwise different names and in
  which every declared parent name belongs to a node that comes earlier in the
  resolution order (all sources, then all processors, then all sinks).  Then \<open>build()\<close>
  returns a topology.  Running the three lists one after the other is the same as one
  pass over their concatenation, node objects are allocated in exactly that order, and
  the source, processor and sink lists of the topology are the corresponding segments.
  Every node is found under its name in the node dictionary, and for every declared
  parent the dictionary holds the parent node, whose children list contains the child.
\<close>

theorem build_valid_registrations:
  fixes b :: "('p, 'st) TopologyBuilder"
  assumes uniq: "distinct (map partial_name (resolution_order b))"
    and par: "parents_earlier [] (resolution_order b)"
  shows "\<exists>topo h. build b = Inr (topo, h)
     \<and> run_builders (resolution_order b) [] Map.empty =
         Inr (sources topo @ processors topo @ sinks topo, h, nodes topo)
     \<and> sources topo = [0..<length (priv_sources b)]
     \<and> processors topo =
         [length (priv_sources b)..<length (priv_sources b) + length (priv_processors b)]
     \<and> sinks topo =
         [length (priv_sources b) + length (priv_processors b)..<length (resolution_order b)]
     \<and> map name h = map partial_name (resolution_order b)
     \<and> (\<forall>j<length (resolution_order b).
           nodes topo (partial_name (resolution_order b ! j)) = Some j
           \<and> (\<forall>p\<in>set (partial_parents (resolution_order b ! j)).
                 \<exists>i<j. nodes topo p = Some i \<and> name (h ! i) = p
                   \<and> j \<in> set (children (h ! i))))"
proof -
  let ?order = "resolution_order b"
  let ?ns = "length (priv_sources b)" and ?np = "length (priv_processors b)"
  have n: "length ?order = ?ns + ?np + length (priv_sinks b)"
    by (simp add: resolution_order_def)
  have "\<exists>(h :: ('p, 'st) heap) nd.
          run_builders ?order [] Map.empty = Inr ([0..<length ?order], h, nd)
          \<and> resolved ?order h nd"
    using run_builders_resolved [OF resolved_empty, of ?order] uniq par by simp
  then obtain h :: "('p, 'st) heap" and nd where
    run: "run_builders ?order [] Map.empty = Inr ([0..<length ?order], h, nd)"
    and inv: "resolved ?order h nd"
    by blast
  define topo :: "'st Topology" where
    "topo = \<lparr>nodes = nd,
             sources = take ?ns [0..<length ?order],
             processors = take ?np (drop ?ns [0..<length ?order]),
             sinks = drop (?ns + ?np) [0..<length ?order],
             state_stores = (\<lambda>k. map_option create (priv_state_stores b k))\<rparr>"
  have build: "build b = Inr (topo, h)"
    by (simp add: build_one_pass run topo_def)
  have srcs: "sources topo = [0..<?ns]"
    by (simp add: topo_def n take_upt)
  have procs: "processors topo = [?ns..<?ns + ?np]"
    by (simp add: topo_def n take_upt drop_upt)
  have snks: "sinks topo = [?ns + ?np..<length ?order]"
    by (simp add: topo_def drop_upt)
  have cat: "sources topo @ processors topo @ sinks topo = [0..<length ?order]"
  proof -
    let ?nk = "length (priv_sinks b)"
    have "[0..<?ns + (?np + ?nk)] = [0..<?ns] @ [?ns..<?ns + (?np + ?nk)]"
      by (rule upt_add_eq_append) simp
    moreover have "[?ns..<?ns + ?np + ?nk] = [?ns..<?ns + ?np] @ [?ns + ?np..<?ns + ?np + ?nk]"
      by (rule upt_add_eq_append) simp
    ultimately show ?thesis unfolding srcs procs snks n by (simp add: add.assoc)
  qed
  have names: "map name h = map partial_name ?order"
    using inv by (simp add: resolved_def)
  have edges: "nodes topo (partial_name (?order ! j)) = Some j
       \<and> (\<forall>p\<in>set (partial_parents (?order ! j)).
             \<exists>i<j. nodes topo p = Some i \<and> name (h ! i) = p \<and> j \<in> set (children (h ! i)))"
    if j: "j < length ?order" for j
  proof
    show "nodes topo (partial_name (?order ! j)) = Some j"
      using resolved_dict [OF inv, of "partial_name (?order ! j)" j] j by (simp add: topo_def)
  next
    show "\<forall>p\<in>set (partial_parents (?order ! j)).
            \<exists>i<j. nodes topo p = Some i \<and> name (h ! i) = p \<and> j \<in> set (children (h ! i))"
    proof
      fix p assume "p \<in> set (partial_parents (?order ! j))"
      from resolved_edge [OF inv j this] obtain i where
        i: "i < j" "partial_name (?order ! i) = p" "j \<in> set (children (h ! i))" by blast
      then have il: "i < length ?order" using j by simp
      have "nodes topo p = Some i"
        using resolved_dict [OF inv, of p i] i il by (simp add: topo_def)
      moreover have "name (h ! i) = p" using resolved_name [OF inv il] i by simp
      ultimately show "\<exists>i<j. nodes topo p = Some i \<and> name (h ! i) = p \<and> j \<in> set (children (h ! i))"
        using i by blast
    qed
  qed
  have nd: "nodes topo = nd" by (simp add: topo_def)
  have run': "run_builders ?order [] Map.empty =
                Inr (sources topo @ processors topo @ sinks topo, h, nodes topo)"
    unfolding cat nd by (rule run)
  show ?thesis
    using build run' srcs procs snks names edges by blast
qed

theorem build_valid_registrations_witness:
  "distinct (map partial_name (resolution_order
       ((TopologyBuilder_init :: (unit, unit) TopologyBuilder)
          \<lparr>priv_sources := [Partial_build_source ''src'' [''topic-in'']],
           priv_processors := [Partial_build_processor ''proc'' () [''src'']],
           priv_sinks := [Partial_build_sink ''snk'' ''topic-out'' [''proc'']]\<rparr>)))
   \<and> parents_earlier [] (resolution_order
       ((TopologyBuilder_init :: (unit, unit) TopologyBuilder)
          \<lparr>priv_sources := [Partial_build_source ''src'' [''topic-in'']],
           priv_processors := [Partial_build_processor ''proc'' () [''src'']],
           priv_sinks := [Partial_build_sink ''snk'' ''topic-out'' [''proc'']]\<rparr>))
   \<and> (\<exists>topo h.
         build ((TopologyBuilder_init :: (unit, unit) TopologyBuilder)
          \<lparr>priv_sources := [Partial_build_source ''src'' [''topic-in'']],
           priv_processors := [Partial_build_processor ''proc'' () [''src'']],
           priv_sinks := [Partial_build_sink ''snk'' ''topic-out'' [''proc'']]\<rparr>)
           = Inr (topo, h)
         \<and> sources topo = [0] \<and> processors topo = [1] \<and> sinks topo = [2]
         \<and> map name h = [''src'', ''proc'', ''snk'']
         \<and> nodes topo ''src'' = Some 0 \<and> nodes topo ''proc'' = Some 1
         \<and> nodes topo ''snk'' = Some 2
         \<and> 1 \<in> set (children (h ! 0)) \<and> 2 \<in> set (children (h ! 1)))"
proof -
  let ?b = "(TopologyBuilder_init :: (unit, unit) TopologyBuilder)
          \<lparr>priv_sources := [Partial_build_source ''src'' [''topic-in'']],
           priv_processors := [Partial_build_processor ''proc'' () [''src'']],
           priv_sinks := [Partial_build_sink ''snk'' ''topic-out'' [''proc'']]\<rparr>"
  have order: "resolution_order ?b =
      [Partial_build_source ''src'' [''topic-in''], Partial_build_processor ''proc'' () [''src''],
       Partial_build_sink ''snk'' ''topic-out'' [''proc'']]"
    by (simp add: resolution_order_def)
  have uniq: "distinct (map partial_name (resolution_order ?b))"
    by (simp add: order)
  have par: "parents_earlier [] (resolution_order ?b)"
    by (simp add: order)
  from build_valid_registrations [OF uniq par] obtain topo h where
    built: "build ?b = Inr (topo, h)"
    and lists: "sources topo = [0..<length (priv_sources ?b)]"
      "processors topo =
         [length (priv_sources ?b)..<length (priv_sources ?b) + length (priv_processors ?b)]"
      "sinks topo =
         [length (priv_sources ?b) + length (priv_processors ?b)..<length (resolution_order ?b)]"
    and names: "map name h = map partial_name (resolution_order ?b)"
    and edges: "\<forall>j<length (resolution_order ?b).
           nodes topo (partial_name (resolution_order ?b ! j)) = Some j
           \<and> (\<forall>p\<in>set (partial_parents (resolution_order ?b ! j)).
                 \<exists>i<j. nodes topo p = Some i \<and> name (h ! i) = p
                   \<and> j \<in> set (children (h ! i)))"
    by blast
  have l0: "sources topo = [0]" and l1: "processors topo = [1]" and l2: "sinks topo = [2]"
    using lists by (simp_all add: order upt_rec)
  have n: "map name h = [''src'', ''proc'', ''snk'']"
    using names by (simp add: order)
  from edges [rule_format, of 0] have d0: "nodes topo ''src'' = Some 0"
    by (simp add: order)
  from edges [rule_format, of 1] have d1: "nodes topo ''proc'' = Some 1"
    and e1: "\<exists>i<1. nodes topo ''src'' = Some i \<and> name (h ! i) = ''src'' \<and> 1 \<in> set (children (h ! i))"
    by (simp_all add: order)
  from edges [rule_format, of 2] have d2: "nodes topo ''snk'' = Some 2"
    and e2: "\<exists>i<2. nodes topo ''proc'' = Some i \<and> name (h ! i) = ''proc''
               \<and> 2 \<in> set (children (h ! i))"
    by (simp_all add: order)
  from e1 have c0: "1 \<in> set (children (h ! 0))" by auto
  from e2 d1 have c1: "2 \<in> set (children (h ! 1))" by auto
  from uniq par built l0 l1 l2 n d0 d1 d2 c0 c1 show ?thesis
    by - (intro conjI exI, assumption+)
qed

subsection \<open>Failing builds\<close>

text \<open>
  C2.  A processor registered with a parent name that no node carries:
  \<open>processor("proc", MyProc, "missing")\<close> is accepted, and the following \<open>build()\<close>
  raises the built-in \<open>KeyError\<close> for the key \<open>missing\<close>, raised by the lookup
  \<open>nodes[i]\<close> before the check for unresolved inputs is reached; it is not a
  \<open>KafkaStreamsError\<close>.
\<close>

theorem build_missing_parent_raises_KeyError:
  "processor (TopologyBuilder_init :: (unit, unit) TopologyBuilder) ''proc'' () [''missing'']
     = Inr (ReturnSelf,
            TopologyBuilder_init
              \<lparr>priv_processors := [Partial_build_processor ''proc'' () [''missing'']]\<rparr>)
   \<and> build ((TopologyBuilder_init :: (unit, unit) TopologyBuilder)
              \<lparr>priv_processors := [Partial_build_processor ''proc'' () [''missing'']]\<rparr>)
       = Inl (KeyError ''missing'')
   \<and> \<not> is_KafkaStreamsError
          (build ((TopologyBuilder_init :: (unit, unit) TopologyBuilder)
              \<lparr>priv_processors := [Partial_build_processor ''proc'' () [''missing'']]\<rparr>))"
  by (simp add: processor_def build_def build_processor_def add_node_def
        TopologyBuilder_init_def)

text \<open>
  C3.  A source and a sink that share the name \<open>s\<close>, registered together with a
  processor whose parent \<open>missing\<close> does not exist:
  \<open>source("s", ["t"])\<close>, \<open>processor("p", MyProc, "missing")\<close>, \<open>sink("s", "out", "s")\<close>.
  The build fails, but with the \<open>KeyError\<close> of the processor, which is resolved before
  the sink; it is not a \<open>KafkaStreamsError\<close>.
\<close>

theorem build_duplicate_name_preempted_by_KeyError:
  "source (TopologyBuilder_init :: (unit, unit) TopologyBuilder) ''s'' [''t'']
     = Inr (ReturnSelf,
            TopologyBuilder_init
              \<lparr>priv_sources := [Partial_build_source ''s'' [''t'']], topics := [''t'']\<rparr>)
   \<and> processor ((TopologyBuilder_init :: (unit, unit) TopologyBuilder)
              \<lparr>priv_sources := [Partial_build_source ''s'' [''t'']], topics := [''t'']\<rparr>)
        ''p'' () [''missing'']
     = Inr (ReturnSelf,
            TopologyBuilder_init
              \<lparr>priv_sources := [Partial_build_source ''s'' [''t'']], topics := [''t''],
               priv_processors := [Partial_build_processor ''p'' () [''missing'']]\<rparr>)
   \<and> sink ((TopologyBuilder_init :: (unit, unit) TopologyBuilder)
              \<lparr>priv_sources := [Partial_build_source ''s'' [''t'']], topics := [''t''],
               priv_processors := [Partial_build_processor ''p'' () [''missing'']]\<rparr>)
        ''s'' ''out'' [''s'']
     = Inr (ReturnSelf,
            TopologyBuilder_init
              \<lparr>priv_sources := [Partial_build_source ''s'' [''t'']], topics := [''t''],
               priv_processors := [Partial_build_processor ''p'' () [''missing'']],
               priv_sinks := [Partial_build_sink ''s'' ''out'' [''s'']]\<rparr>)
   \<and> build ((TopologyBuilder_init :: (unit, unit) TopologyBuilder)
              \<lparr>priv_sources := [Partial_build_source ''s'' [''t'']], topics := [''t''],
               priv_processors := [Partial_build_processor ''p'' () [''missing'']],
               priv_sinks := [Partial_build_sink ''s'' ''out'' [''s'']]\<rparr>)
       = Inl (KeyError ''missing'')"
  by (simp add: source_def processor_def sink_def build_def build_source_def
        build_processor_def build_sink_def add_node_def ProcessorNode_init_def
        TopologyBuilder_init_def)

text \<open>
  C4.  A processor whose parent list holds its own name after a name that does not
  exist: \<open>processor("p", MyProc, "missing", "p")\<close>.  The whole parent list is looked up
  before the self-input check, so the build raises \<open>KeyError\<close> for \<open>missing\<close>; it is
  not a \<open>KafkaStreamsError\<close>.
\<close>

theorem build_self_input_preempted_by_KeyError:
  "processor (TopologyBuilder_init :: (unit, unit) TopologyBuilder) ''p'' () [''missing'', ''p'']
     = Inr (ReturnSelf,
            TopologyBuilder_init
              \<lparr>priv_processors := [Partial_build_processor ''p'' () [''missing'', ''p'']]\<rparr>)
   \<and> build ((TopologyBuilder_init :: (unit, unit) TopologyBuilder)
              \<lparr>priv_processors := [Partial_build_processor ''p'' () [''missing'', ''p'']]\<rparr>)
       = Inl (KeyError ''missing'')"
  by (simp add: processor_def build_def build_processor_def add_node_def
        ProcessorNode_init_def TopologyBuilder_init_def)

subsection \<open>Eager checks of the registration calls\<close>

text \<open>
  C5.  \<open>processor(name, processor_type)\<close> with no parent raises a
  \<open>KafkaStreamsError\<close> at the call, whatever the state of the builder, hence before and
  independently of any \<open>build()\<close>; with at least one parent the call does not raise, it
  records the deferred instruction and returns the builder.
\<close>

theorem processor_requires_parent:
  "is_KafkaStreamsError (processor b nm pt [])
   \<and> processor b nm pt [] = processor b' nm pt []
   \<and> (parents \<noteq> [] \<longrightarrow>
        processor b nm pt parents =
          Inr (ReturnSelf,
               b\<lparr>priv_processors :=
                   priv_processors b @ [Partial_build_processor nm pt parents]\<rparr>))"
  by (simp add: processor_def)

theorem processor_requires_parent_witness:
  "[''src''] \<noteq> ([] :: string list)
   \<and> is_KafkaStreamsError
        (processor (TopologyBuilder_init :: (unit, unit) TopologyBuilder) ''proc'' () [])
   \<and> processor (TopologyBuilder_init :: (unit, unit) TopologyBuilder) ''proc'' () [''src''] =
       Inr (ReturnSelf,
            TopologyBuilder_init
              \<lparr>priv_processors := [Partial_build_processor ''proc'' () [''src'']]\<rparr>)"
  using processor_requires_parent
          [where b = "TopologyBuilder_init :: (unit, unit) TopologyBuilder" and nm = "''proc''"
             and pt = "()" and parents = "[''src'']"]
  by (simp add: TopologyBuilder_init_def)

text \<open>
  C6.  \<open>sink(name, topic)\<close> with no parent: the call does not raise.  It records the
  deferred instruction and returns the builder, and the following \<open>build()\<close> returns a
  topology whose sink has no parent.
\<close>

theorem sink_accepts_empty_parents:
  "sink (TopologyBuilder_init :: (unit, unit) TopologyBuilder) ''snk'' ''topic-out'' [] =
     Inr (ReturnSelf,
          TopologyBuilder_init\<lparr>priv_sinks := [Partial_build_sink ''snk'' ''topic-out'' []]\<rparr>)
   \<and> \<not> is_KafkaStreamsError
         (sink (TopologyBuilder_init :: (unit, unit) TopologyBuilder) ''snk'' ''topic-out'' [])
   \<and> build ((TopologyBuilder_init :: (unit, unit) TopologyBuilder)
              \<lparr>priv_sinks := [Partial_build_sink ''snk'' ''topic-out'' []]\<rparr>)
       = Inr (\<lparr>nodes = [''snk'' \<mapsto> 0], sources = [], processors = [], sinks = [0],
               state_stores = Map.empty\<rparr>,
              [\<lparr>name = ''snk'', node_processor = SinkProcessor ''topic-out'', children = [],
                stores = None\<rparr>])"
  by (simp add: sink_def build_def build_sink_def add_node_def ProcessorNode_init_def
        TopologyBuilder_init_def)

text \<open>
  C7.  A factory without an attribute \<open>name\<close>, registered twice under the name \<open>st\<close>
  on a fresh builder.  The first call does not raise and records the factory.  The second
  call reaches the duplicate branch, where the message reads \<open>store.name\<close>: it raises the
  built-in \<open>AttributeError\<close>, not a \<open>KafkaStreamsError\<close>.
\<close>

theorem state_store_duplicate_raises_AttributeError:
  "state_store (TopologyBuilder_init :: (unit, nat) TopologyBuilder) ''st''
       (Some \<lparr>store_name = None, create = 1\<rparr>) []
     = Inr (ReturnNone,
            TopologyBuilder_init
              \<lparr>priv_state_stores := [''st'' \<mapsto> \<lparr>store_name = None, create = 1\<rparr>]\<rparr>)
   \<and> state_store
         ((TopologyBuilder_init :: (unit, nat) TopologyBuilder)
            \<lparr>priv_state_stores := [''st'' \<mapsto> \<lparr>store_name = None, create = 1\<rparr>]\<rparr>)
         ''st'' (Some \<lparr>store_name = None, create = 1\<rparr>) []
       = Inl (AttributeError ''name'')
   \<and> \<not> is_KafkaStreamsError
         (state_store
            ((TopologyBuilder_init :: (unit, nat) TopologyBuilder)
               \<lparr>priv_state_stores := [''st'' \<mapsto> \<lparr>store_name = None, create = 1\<rparr>]\<rparr>)
            ''st'' (Some \<lparr>store_name = None, create = 1\<rparr>) [])"
  by (simp add: state_store_def TopologyBuilder_init_def)

subsection \<open>Store lookup through the context\<close>

text \<open>
  C8.  A context bound to a node that \<open>build()\<close> produced: the builder registers a
  source, a processor, a sink and a store \<open>A\<close> with the processor as attachment target;
  the topology holds the store instance under \<open>A\<close>.  With the context bound to the
  processor node, \<open>get_store("A")\<close> raises the built-in \<open>AttributeError\<close>, since the
  node has no attribute \<open>stores\<close>; it is neither the store nor the store-not-found
  \<open>KafkaStreamsError\<close>.
\<close>

theorem get_store_on_built_node_raises_AttributeError:
  "build ((TopologyBuilder_init :: (unit, nat) TopologyBuilder)
            \<lparr>priv_sources := [Partial_build_source ''src'' [''topic-in'']],
             priv_processors := [Partial_build_processor ''proc'' () [''src'']],
             priv_sinks := [Partial_build_sink ''snk'' ''topic-out'' [''proc'']],
             priv_state_stores := [''A'' \<mapsto> \<lparr>store_name = Some ''A'', create = 7\<rparr>]\<rparr>)
     = Inr (\<lparr>nodes = [''src'' \<mapsto> 0, ''proc'' \<mapsto> 1, ''snk'' \<mapsto> 2],
             sources = [0], processors = [1], sinks = [2],
             state_stores = [''A'' \<mapsto> 7]\<rparr>,
            [\<lparr>name = ''src'', node_processor = SourceProcessor [''topic-in''],
              children = [1], stores = None\<rparr>,
             \<lparr>name = ''proc'', node_processor = ProcessorInstance (),
              children = [2], stores = None\<rparr>,
             \<lparr>name = ''snk'', node_processor = SinkProcessor ''topic-out'',
              children = [], stores = None\<rparr>])
   \<and> get_store
        \<lparr>currentNode =
           Some \<lparr>name = ''proc'', node_processor = ProcessorInstance (),
                 children = [2], stores = None :: (string \<rightharpoonup> nat) option\<rparr>\<rparr> ''A''
       = Inl (AttributeError ''stores'')"
  by (auto simp: build_def build_source_def build_processor_def build_sink_def add_node_def
        ProcessorNode_init_def TopologyBuilder_init_def get_store_def eval_nat_numeral)

subsection \<open>Return values\<close>

text \<open>
  C9.  \<open>state_store("st", factory)\<close> on a fresh builder records the factory and then
  returns \<open>None\<close>: its body has no \<open>return self\<close>, unlike \<open>source\<close>, \<open>processor\<close> and
  \<open>sink\<close>.
\<close>

theorem state_store_returns_None:
  "state_store (TopologyBuilder_init :: (unit, nat) TopologyBuilder) ''st''
       (Some \<lparr>store_name = Some ''a'', create = 1\<rparr>) []
     = Inr (ReturnNone,
            TopologyBuilder_init
              \<lparr>priv_state_stores := [''st'' \<mapsto> \<lparr>store_name = Some ''a'', create = 1\<rparr>]\<rparr>)
   \<and> (\<forall>b. state_store (TopologyBuilder_init :: (unit, nat) TopologyBuilder) ''st''
             (Some \<lparr>store_name = Some ''a'', create = 1\<rparr>) [] \<noteq> Inr (ReturnSelf, b))"
  by (simp add: state_store_def TopologyBuilder_init_def)

subsection \<open>Stores and nodes\<close>

text \<open>
  C10.  The attachment targets passed to \<open>state_store\<close> change neither what the call
  returns nor the builder it leaves behind.  A node is constructed with a name, a
  processor and an empty children list, and without a store mapping.  In every topology
  that \<open>build()\<close> returns, no node object carries a store mapping, and the store
  mapping of the topology holds exactly one instance per registered factory.
\<close>

theorem state_store_targets_unused:
  fixes b :: "('p, 'st) TopologyBuilder" and h :: "('p, 'st) heap"
  shows "state_store b nm store args = state_store b nm store args'
   \<and> stores (ProcessorNode_init n p :: ('p, 'st) ProcessorNode) = None
   \<and> children (ProcessorNode_init n p :: ('p, 'st) ProcessorNode) = []
   \<and> (build b = Inr (topo, h) \<longrightarrow>
        list_all (\<lambda>node. stores node = None) h
        \<and> state_stores topo = (\<lambda>k. map_option create (priv_state_stores b k)))"
proof -
  have "list_all (\<lambda>node. stores node = None) h
        \<and> state_stores topo = (\<lambda>k. map_option create (priv_state_stores b k))"
    if "build b = Inr (topo, h)"
  proof -
    from that obtain rs nd where
      run: "run_builders (resolution_order b) [] Map.empty = Inr (rs, h, nd)"
      and topo: "state_stores topo = (\<lambda>k. map_option create (priv_state_stores b k))"
      by (auto simp: build_one_pass split: sum.splits)
    from run_builders_stores [OF run] topo show ?thesis by simp
  qed
  then show ?thesis by (simp add: state_store_def ProcessorNode_init_def)
qed

theorem state_store_targets_unused_witness:
  "build ((TopologyBuilder_init :: (unit, nat) TopologyBuilder)
            \<lparr>priv_sources := [Partial_build_source ''src'' [''topic-in'']],
             priv_processors := [Partial_build_processor ''proc'' () [''src'']],
             priv_state_stores := [''A'' \<mapsto> \<lparr>store_name = Some ''A'', create = 7\<rparr>]\<rparr>)
     = Inr (\<lparr>nodes = [''src'' \<mapsto> 0, ''proc'' \<mapsto> 1],
             sources = [0], processors = [1], sinks = [],
             state_stores = [''A'' \<mapsto> 7]\<rparr>,
            [\<lparr>name = ''src'', node_processor = SourceProcessor [''topic-in''],
              children = [1], stores = None\<rparr>,
             \<lparr>name = ''proc'', node_processor = ProcessorInstance (),
              children = [], stores = None\<rparr>])
   \<and> state_store ((TopologyBuilder_init :: (unit, nat) TopologyBuilder)
            \<lparr>priv_sources := [Partial_build_source ''src'' [''topic-in'']],
             priv_processors := [Partial_build_processor ''proc'' () [''src'']],
             priv_state_stores := [''A'' \<mapsto> \<lparr>store_name = Some ''A'', create = 7\<rparr>]\<rparr>)
         ''B'' (Some \<lparr>store_name = Some ''B'', create = 8\<rparr>) [''proc'']
       = state_store ((TopologyBuilder_init :: (unit, nat) TopologyBuilder)
            \<lparr>priv_sources := [Partial_build_source ''src'' [''topic-in'']],
             priv_processors := [Partial_build_processor ''proc'' () [''src'']],
             priv_state_stores := [''A'' \<mapsto> \<lparr>store_name = Some ''A'', create = 7\<rparr>]\<rparr>)
         ''B'' (Some \<lparr>store_name = Some ''B'', create = 8\<rparr>) []
   \<and> list_all (\<lambda>node. stores node = None)
        [\<lparr>name = ''src'', node_processor = SourceProcessor [''topic-in''],
          children = [1], stores = None :: (string \<rightharpoonup> nat) option\<rparr>,
         \<lparr>name = ''proc'', node_processor = ProcessorInstance (),
          children = [], stores = None\<rparr>]"
proof -
  let ?b = "(TopologyBuilder_init :: (unit, nat) TopologyBuilder)
            \<lparr>priv_sources := [Partial_build_source ''src'' [''topic-in'']],
             priv_processors := [Partial_build_processor ''proc'' () [''src'']],
             priv_state_stores := [''A'' \<mapsto> \<lparr>store_name = Some ''A'', create = 7\<rparr>]\<rparr>"
  let ?topo = "\<lparr>nodes = [''src'' \<mapsto> 0, ''proc'' \<mapsto> 1],
             sources = [0], processors = [1], sinks = [],
             state_stores = [''A'' \<mapsto> 7 :: nat]\<rparr>"
  let ?h = "[\<lparr>name = ''src'', node_processor = SourceProcessor [''topic-in''],
              children = [1], stores = None :: (string \<rightharpoonup> nat) option\<rparr>,
             \<lparr>name = ''proc'', node_processor = ProcessorInstance (),
              children = [], stores = None\<rparr>]"
  have built: "build ?b = Inr (?topo, ?h)"
    by (auto simp: build_def build_source_def build_processor_def add_node_def
          ProcessorNode_init_def TopologyBuilder_init_def)
  from state_store_targets_unused
         [where b = ?b and topo = ?topo and h = ?h and nm = "''B''"
            and store = "Some \<lparr>store_name = Some ''B'', create = 8\<rparr>"
            and args = "[''proc'']" and args' = "[]"
            and n = "''src''" and p = "SourceProcessor [''topic-in'']"]
       built
  show ?thesis by simp
qed

end
